theory Spec2Isabelle
  imports Main "HOL-Library.Word" "HOL-Library.Sublist"
begin

section \<open>Fixed-point conversion in main.go\<close>

text \<open>
  The theory embeds the two conversion functions of \<^verbatim>\<open>main.go\<close>,
  \<^verbatim>\<open>ToIntByPrecise\<close> (lines 142-159) and \<^verbatim>\<open>ToStringByPrecise\<close> (lines 161-172),
  together with the functions of Go's standard library they call.

  A Go \<^verbatim>\<open>string\<close> is a sequence of bytes, here a \<^typ>\<open>string\<close> (a list of 8-bit
  characters), so \<^verbatim>\<open>len\<close> is \<^const>\<open>length\<close>. An \<^verbatim>\<open>int64\<close> is a \<^typ>\<open>64 word\<close>
  read with \<^const>\<open>sint\<close>; its arithmetic wraps around. A \<^verbatim>\<open>big.Int\<close> value is an
  \<^typ>\<open>int\<close>.
\<close>

subsection \<open>Package strings\<close>

text \<open>
  \<^verbatim>\<open>strings.TrimSpace\<close> removes all leading and trailing white space, as defined by
  Unicode, from a UTF-8 encoded string. \<^verbatim>\<open>unicode.IsSpace\<close> accepts the code points
  U+0009 to U+000D, U+0020, U+0085, U+00A0, U+1680, U+2000 to U+200A, U+2028, U+2029, U+202F,
  U+205F and U+3000. \<open>spaceRunes\<close> lists their UTF-8 encodings. A byte sequence that is
  not the valid encoding of one of them decodes to another rune (or to the error rune,
  one byte wide), which is not white space.
\<close>

definition spaceRunes :: "string list" where
  "spaceRunes =
    [[CHR 0x09], [CHR 0x0A], [CHR 0x0B], [CHR 0x0C], [CHR 0x0D], [CHR 0x20],
     [CHR 0xC2, CHR 0x85], [CHR 0xC2, CHR 0xA0],
     [CHR 0xE1, CHR 0x9A, CHR 0x80],
     [CHR 0xE2, CHR 0x80, CHR 0x80], [CHR 0xE2, CHR 0x80, CHR 0x81],
     [CHR 0xE2, CHR 0x80, CHR 0x82], [CHR 0xE2, CHR 0x80, CHR 0x83],
     [CHR 0xE2, CHR 0x80, CHR 0x84], [CHR 0xE2, CHR 0x80, CHR 0x85],
     [CHR 0xE2, CHR 0x80, CHR 0x86], [CHR 0xE2, CHR 0x80, CHR 0x87],
     [CHR 0xE2, CHR 0x80, CHR 0x88], [CHR 0xE2, CHR 0x80, CHR 0x89],
     [CHR 0xE2, CHR 0x80, CHR 0x8A],
     [CHR 0xE2, CHR 0x80, CHR 0xA8], [CHR 0xE2, CHR 0x80, CHR 0xA9],
     [CHR 0xE2, CHR 0x80, CHR 0xAF],
     [CHR 0xE2, CHR 0x81, CHR 0x9F],
     [CHR 0xE3, CHR 0x80, CHR 0x80]]"

text \<open>
  The trimming loop: while the string starts with one of the sequences \<open>ws\<close>, drop it.
  \<^verbatim>\<open>TrimLeftFunc\<close> decodes runes from the front; \<^verbatim>\<open>TrimRightFunc\<close> decodes them
  from the back, which is the same loop on the reversed string with the reversed sequences.
\<close>

function dropRunes :: "string list \<Rightarrow> string \<Rightarrow> string" where
  "dropRunes ws s =
     (case find (\<lambda>w. w \<noteq> [] \<and> prefix w s) ws of
        None \<Rightarrow> s
      | Some w \<Rightarrow> dropRunes ws (drop (length w) s))"
  by pat_completeness auto
termination
proof (relation "measure (\<lambda>(ws, s). length s)")
  show "wf (measure (\<lambda>(ws, s). length s))" by simp
next
  fix ws :: "string list" and s w :: string
  assume "find (\<lambda>w. w \<noteq> [] \<and> prefix w s) ws = Some w"
  then have "w \<noteq> []" and "prefix w s"
    by (auto simp: find_Some_iff)
  then have "s \<noteq> []" by auto
  with \<open>w \<noteq> []\<close> show "((ws, drop (length w) s), (ws, s)) \<in> measure (\<lambda>(ws, s). length s)"
    by simp
qed

declare dropRunes.simps [simp del]

definition TrimLeftSpace :: "string \<Rightarrow> string" where
  "TrimLeftSpace s = dropRunes spaceRunes s"

definition TrimRightSpace :: "string \<Rightarrow> string" where
  "TrimRightSpace s = rev (dropRunes (map rev spaceRunes) (rev s))"

definition TrimSpace :: "string \<Rightarrow> string" where
  "TrimSpace s = TrimRightSpace (TrimLeftSpace s)"

text \<open>
  \<^verbatim>\<open>strings.Split(s, sep)\<close> with a one-byte separator: the pieces of \<open>s\<close> between
  all occurrences of \<open>sep\<close>, one piece more than there are separators; the empty string
  gives one empty piece.
\<close>

fun Split :: "string \<Rightarrow> char \<Rightarrow> string list" where
  "Split [] sep = [[]]"
| "Split (c # cs) sep =
     (if c = sep then [] # Split cs sep
      else (case Split cs sep of
              [] \<Rightarrow> [[c]]
            | p # ps \<Rightarrow> (c # p) # ps))"

subsection \<open>Package math/big\<close>

text \<open>
  \<^verbatim>\<open>(*Int).SetString(s, 10)\<close>, as implemented by \<^verbatim>\<open>(*Int).scan\<close> and \<^verbatim>\<open>nat.scan\<close>:
  an optional sign, then the longest run of decimal digits. The call succeeds when there is
  at least one digit and nothing follows the digits. The result pairs the value the receiver
  holds after the call with the success flag. The receiver keeps its value \<open>z\<close> when the
  string is empty (reading the sign already fails), is 0 when no digit follows the sign, and
  otherwise holds the signed value of the digit run, also when the call fails because of
  what follows. (The package documents the value after a failure as undefined; this is
  what its code leaves there.)
\<close>

definition isDigit :: "char \<Rightarrow> bool" where
  "isDigit c = ((48::nat) \<le> of_char c \<and> of_char c \<le> (57::nat))"

definition digitVal :: "char \<Rightarrow> nat" where
  "digitVal c = of_char c - 48"

fun scan :: "string \<Rightarrow> nat \<Rightarrow> nat \<Rightarrow> nat \<times> nat \<times> string" where
  "scan [] acc count = (acc, count, [])"
| "scan (ch # r) acc count =
     (if isDigit ch then scan r (acc * 10 + digitVal ch) (Suc count)
      else (acc, count, ch # r))"

definition SetString :: "int \<Rightarrow> string \<Rightarrow> int \<times> bool" where
  "SetString z s =
     (case s of
        [] \<Rightarrow> (z, False)
      | ch # r \<Rightarrow>
          (let neg = (ch = CHR ''-'');
               r1 = (if ch = CHR ''-'' \<or> ch = CHR ''+'' then r else s);
               (abs, count, rest) = scan r1 0 0
           in if count = 0 then (0, False)
              else ((if neg then - int abs else int abs), rest = [])))"

text \<open>
  \<^verbatim>\<open>(*Int).String\<close>: the decimal digits of the value, after a minus sign when it is
  negative.
\<close>

function utoa :: "nat \<Rightarrow> string" where
  "utoa n = (if n < 10 then [char_of (48 + n)] else utoa (n div 10) @ [char_of (48 + n mod 10)])"
  by pat_completeness auto
termination
  by (relation "measure id") auto

declare utoa.simps [simp del]

definition itoa :: "int \<Rightarrow> string" where
  "itoa x = (if x < 0 then CHR ''-'' # utoa (nat (- x)) else utoa (nat x))"

text \<open>
  \<^verbatim>\<open>*big.Int\<close> objects live in a store, a list of values indexed by address; a pointer
  is an address, or \<open>None\<close> for \<^verbatim>\<open>nil\<close>. \<^verbatim>\<open>new(big.Int)\<close> and \<^verbatim>\<open>big.NewInt\<close>
  allocate at the end of the store. \<^verbatim>\<open>Set\<close>, \<^verbatim>\<open>Exp\<close> (with a \<^verbatim>\<open>nil\<close> modulus) and
  \<^verbatim>\<open>Div\<close> write their result to the receiver \<open>z\<close>. \<^verbatim>\<open>Div\<close> is Euclidean division and
  panics on a zero divisor.
\<close>

type_synonym store = "int list"

datatype error = DivisionByZero

definition newInt :: "store \<Rightarrow> nat \<times> store" where
  "newInt h = (length h, h @ [0])"

definition NewInt :: "store \<Rightarrow> int \<Rightarrow> nat \<times> store" where
  "NewInt h x = (length h, h @ [x])"

definition Int_Set :: "store \<Rightarrow> nat \<Rightarrow> nat \<Rightarrow> store" where
  "Int_Set h z x = h[z := h ! x]"

definition Int_Exp :: "store \<Rightarrow> nat \<Rightarrow> nat \<Rightarrow> nat \<Rightarrow> store" where
  "Int_Exp h z x y = h[z := (if h ! y \<le> 0 then 1 else (h ! x) ^ nat (h ! y))]"

definition Int_Div :: "store \<Rightarrow> nat \<Rightarrow> nat \<Rightarrow> nat \<Rightarrow> error + store" where
  "Int_Div h z x y =
     (if h ! y = 0 then Inl DivisionByZero
      else Inr (h[z := sgn (h ! y) * (h ! x div \<bar>h ! y\<bar>)]))"

definition Int_String :: "store \<Rightarrow> nat \<Rightarrow> string" where
  "Int_String h x = itoa (h ! x)"

subsection \<open>ToIntByPrecise\<close>

text \<open>
  Line 156 builds the power \<open>10^precise\<close> with \<^verbatim>\<open>Exp\<close> before it multiplies. The
  power of a large exponent is a number the machine cannot hold: the call runs out of memory
  or time and returns nothing. \<open>cap\<close> is the largest exponent whose power of ten the
  machine builds; it is a parameter of the model, and \<open>None\<close> stands for a call that does
  not return. The exponents of line 156 are positive, and \<^verbatim>\<open>Exp\<close> gives 1 for any
  other. (The store model of \<^verbatim>\<open>Exp\<close> above places no bound on the exponent.)
\<close>

definition Exp :: "nat \<Rightarrow> int \<Rightarrow> int \<Rightarrow> int option" where
  "Exp cap x y =
     (if y \<le> 0 then Some 1 else if nat y \<le> cap then Some (x ^ nat y) else None)"

text \<open>
  The function takes no pointer and writes only to the \<^verbatim>\<open>big.Int\<close> it allocates itself,
  so its model returns the value of the result, or \<open>None\<close> when the power of line 156 is
  beyond the machine. The three definitions before it are the
  local variables \<^verbatim>\<open>parts\<close> (after line 147), \<^verbatim>\<open>precise\<close> (after line 151) and
  \<^verbatim>\<open>value\<close> (after line 152). The success flag of \<^verbatim>\<open>SetString\<close> is dropped, as
  line 154 drops it. \<^verbatim>\<open>parts[1]\<close> exists: \<^verbatim>\<open>Split\<close> returns at least one piece, and
  a second is appended when there is only one.
\<close>

definition ToIntByPrecise_parts :: "string \<Rightarrow> string list" where
  "ToIntByPrecise_parts value =
     (let parts = Split (TrimSpace value) (CHR ''.'')
      in if length parts = 1 then parts @ [''0''] else parts)"

definition ToIntByPrecise_precise :: "string \<Rightarrow> 64 word \<Rightarrow> 64 word" where
  "ToIntByPrecise_precise value precise =
     (let precise1 = precise - of_nat (length (ToIntByPrecise_parts value ! 1))
      in if precise1 <s 0 then 0 else precise1)"

definition ToIntByPrecise_value :: "string \<Rightarrow> string" where
  "ToIntByPrecise_value value =
     ToIntByPrecise_parts value ! 0 @ ToIntByPrecise_parts value ! 1"

definition ToIntByPrecise :: "nat \<Rightarrow> string \<Rightarrow> 64 word \<Rightarrow> int option" where
  "ToIntByPrecise cap value precise =
     (let precise2 = ToIntByPrecise_precise value precise;
          bi = fst (SetString 0 (ToIntByPrecise_value value))
      in if 0 <s precise2
         then (case Exp cap 10 (sint precise2) of
                 None \<Rightarrow> None
               | Some pw \<Rightarrow> Some (bi * pw))
         else Some bi)"

subsection \<open>ToStringByPrecise\<close>

text \<open>
  The argument is a pointer into the store. The model returns the string and the store
  after the call, or the panic of \<^verbatim>\<open>Div\<close>. Line 165 rebinds the local \<^verbatim>\<open>value\<close>
  to a fresh copy, line 166 negates \<^verbatim>\<open>precise\<close> (in \<^verbatim>\<open>int64\<close>, so the least value
  stays itself), lines 167-169 replace a negative result by 0.
\<close>

definition ToStringByPrecise :: "store \<Rightarrow> nat option \<Rightarrow> 64 word \<Rightarrow> error + string \<times> store" where
  "ToStringByPrecise h value precise =
     (case value of
        None \<Rightarrow> Inr (''0'', h)
      | Some v \<Rightarrow>
          (let (c, h1) = newInt h;
               h2 = Int_Set h1 c v;
               precise1 = - precise;
               precise2 = (if precise1 <s 0 then 0 else precise1);
               (d, h3) = newInt h2;
               (ten, h4) = NewInt h3 10;
               (e, h5) = NewInt h4 (sint precise2);
               h6 = Int_Exp h5 d ten e
           in case Int_Div h6 c c d of
                Inl err \<Rightarrow> Inl err
              | Inr h7 \<Rightarrow> Inr (Int_String h7 c, h7)))"

subsection \<open>The value of a digit string\<close>

text \<open>
  The number a string of decimal digits denotes, most significant digit first. It is what
  the theorems below compare the result of \<^verbatim>\<open>SetString\<close> with.
\<close>

definition decimal :: "string \<Rightarrow> nat" where
  "decimal ds = foldl (\<lambda>acc ch. acc * 10 + digitVal ch) 0 ds"


section \<open>Properties of the library functions\<close>

lemma Split_not_Nil: "Split s sep \<noteq> []"
  by (induction s) (auto split: list.splits)

lemma Split_no_sep: "sep \<notin> set s \<Longrightarrow> Split s sep = [s]"
  by (induction s) auto

lemma Split_first_sep: "sep \<notin> set a \<Longrightarrow> Split (a @ sep # r) sep = a # Split r sep"
  by (induction a) auto

lemma dropRunes_None:
  "find (\<lambda>w. w \<noteq> [] \<and> prefix w s) ws = None \<Longrightarrow> dropRunes ws s = s"
  by (simp add: dropRunes.simps)

lemma dropRunes_Some:
  "find (\<lambda>w. w \<noteq> [] \<and> prefix w s) ws = Some w \<Longrightarrow> dropRunes ws s = dropRunes ws (drop (length w) s)"
  by (simp add: dropRunes.simps)

lemma dropRunes_subset: "set (dropRunes ws s) \<subseteq> set s"
proof (induction ws s rule: dropRunes.induct)
  case (1 ws s)
  show ?case
  proof (cases "find (\<lambda>w. w \<noteq> [] \<and> prefix w s) ws")
    case None
    then show ?thesis by (simp add: dropRunes_None)
  next
    case (Some w)
    have "set (dropRunes ws (drop (length w) s)) \<subseteq> set (drop (length w) s)"
      using "1.IH" [OF Some] .
    also have "\<dots> \<subseteq> set s" by (rule set_drop_subset)
    finally show ?thesis by (simp add: dropRunes_Some [OF Some])
  qed
qed

lemma TrimSpace_subset: "set (TrimSpace s) \<subseteq> set s"
proof -
  have "set (TrimRightSpace t) \<subseteq> set t" for t
    using dropRunes_subset [of "map rev spaceRunes" "rev t"] by (simp add: TrimRightSpace_def)
  moreover have "set (TrimLeftSpace s) \<subseteq> set s"
    by (simp add: TrimLeftSpace_def dropRunes_subset)
  ultimately show ?thesis unfolding TrimSpace_def by blast
qed

lemma dropRunes_hd:
  assumes "s = [] \<or> hd s \<notin> set (concat ws)"
  shows "dropRunes ws s = s"
proof -
  have "\<not> (w \<noteq> [] \<and> prefix w s)" if "w \<in> set ws" for w
  proof
    assume a: "w \<noteq> [] \<and> prefix w s"
    then have "s \<noteq> []" by auto
    with a have "hd s = hd w" by (cases w; cases s) auto
    moreover from a have "hd w \<in> set w" by simp
    with that have "hd w \<in> set (concat ws)" by auto
    ultimately show False using assms \<open>s \<noteq> []\<close> by simp
  qed
  then have "find (\<lambda>w. w \<noteq> [] \<and> prefix w s) ws = None"
    by (simp add: find_None_iff)
  then show ?thesis by (rule dropRunes_None)
qed

lemma concat_map_rev: "set (concat (map rev ws)) = set (concat ws)"
  by (induction ws) auto

lemma TrimSpace_plain:
  assumes "s = [] \<or> (hd s \<notin> set (concat spaceRunes) \<and> last s \<notin> set (concat spaceRunes))"
  shows "TrimSpace s = s"
proof -
  have l: "TrimLeftSpace s = s"
    unfolding TrimLeftSpace_def using assms by (intro dropRunes_hd) auto
  have "rev s = [] \<or> hd (rev s) \<notin> set (concat (map rev spaceRunes))"
    using assms by (auto simp: concat_map_rev hd_rev)
  then have "dropRunes (map rev spaceRunes) (rev s) = rev s"
    by (rule dropRunes_hd)
  then show ?thesis by (simp add: TrimSpace_def TrimRightSpace_def l)
qed


lemma isDigit_not_space: "isDigit c \<Longrightarrow> c \<notin> set (concat spaceRunes)"
  by (auto simp: isDigit_def spaceRunes_def)

lemma dot_not_space: "CHR ''.'' \<notin> set (concat spaceRunes)"
  by (simp add: spaceRunes_def)

lemma isDigit_not_dot: "isDigit c \<Longrightarrow> c \<noteq> CHR ''.''"
  by (auto simp: isDigit_def)

lemma isDigit_not_sign: "isDigit c \<Longrightarrow> c \<noteq> CHR ''-'' \<and> c \<noteq> CHR ''+''"
  by (auto simp: isDigit_def)

lemma find_spaceRune:
  "\<forall>w\<in>set spaceRunes. find (\<lambda>u. u \<noteq> [] \<and> prefix u (w @ r)) spaceRunes = Some w"
  unfolding spaceRunes_def by simp

lemma dropRunes_spaces:
  "set ws \<subseteq> set spaceRunes \<Longrightarrow> dropRunes spaceRunes (concat ws @ r) = dropRunes spaceRunes r"
proof (induction ws)
  case Nil
  then show ?case by simp
next
  case (Cons w ws)
  then have w: "w \<in> set spaceRunes" by simp
  have "find (\<lambda>u. u \<noteq> [] \<and> prefix u (w @ concat ws @ r)) spaceRunes = Some w"
    using find_spaceRune w by blast
  then have "dropRunes spaceRunes (w @ concat ws @ r) = dropRunes spaceRunes (concat ws @ r)"
    by (simp add: dropRunes_Some)
  with Cons show ?case by simp
qed

lemma TrimLeftSpace_spaces: "set ws \<subseteq> set spaceRunes \<Longrightarrow> TrimLeftSpace (concat ws) = []"
  using dropRunes_spaces [of ws "[]"] by (simp add: TrimLeftSpace_def dropRunes_hd)

lemma TrimSpace_spaces: "set ws \<subseteq> set spaceRunes \<Longrightarrow> TrimSpace (concat ws) = []"
  by (simp add: TrimSpace_def TrimLeftSpace_spaces TrimRightSpace_def dropRunes_hd)

lemma foldl_decimal:
  "foldl (\<lambda>acc ch. acc * 10 + digitVal ch) a ds = a * 10 ^ length ds + decimal ds"
proof (induction ds arbitrary: a)
  case Nil
  then show ?case by (simp add: decimal_def)
next
  case (Cons d ds)
  have "foldl (\<lambda>acc ch. acc * 10 + digitVal ch) a (d # ds)
      = (a * 10 + digitVal d) * 10 ^ length ds + decimal ds"
    by (simp add: Cons.IH)
  moreover have "decimal (d # ds) = digitVal d * 10 ^ length ds + decimal ds"
    by (simp add: decimal_def Cons.IH [of "digitVal d"])
  ultimately show ?case by (simp add: algebra_simps)
qed

lemma decimal_snoc: "decimal (ds @ [d]) = decimal ds * 10 + digitVal d"
  by (simp add: decimal_def)

lemma scan_digits:
  assumes "\<forall>d\<in>set ds. isDigit d" and "r = [] \<or> \<not> isDigit (hd r)"
  shows "scan (ds @ r) acc count
       = (foldl (\<lambda>acc ch. acc * 10 + digitVal ch) acc ds, count + length ds, r)"
  using assms
proof (induction ds arbitrary: acc count)
  case Nil
  then show ?case by (cases r) auto
next
  case (Cons d ds)
  then show ?case by simp
qed

lemma SetString_digits:
  assumes "ds \<noteq> []" and "\<forall>d\<in>set ds. isDigit d"
  shows "SetString z ds = (int (decimal ds), True)"
proof -
  obtain d ds' where ds: "ds = d # ds'" using assms(1) by (cases ds) auto
  then have "isDigit d" using assms(2) by simp
  then have sign: "d \<noteq> CHR ''-''" "d \<noteq> CHR ''+''" using isDigit_not_sign by auto
  have "scan (ds @ []) 0 0 = (decimal ds, length ds, [])"
    using scan_digits [OF assms(2), of "[]" 0 0] by (simp add: decimal_def)
  then show ?thesis using assms(1) sign by (simp add: SetString_def ds)
qed

lemma SetString_digits_then:
  assumes "ds \<noteq> []" and "\<forall>d\<in>set ds. isDigit d" and "\<not> isDigit c"
  shows "SetString z (ds @ c # r) = (int (decimal ds), False)"
proof -
  obtain d ds' where ds: "ds = d # ds'" using assms(1) by (cases ds) auto
  then have "isDigit d" using assms(2) by simp
  then have sign: "d \<noteq> CHR ''-''" "d \<noteq> CHR ''+''" using isDigit_not_sign by auto
  have "scan (ds @ c # r) 0 0 = (decimal ds, length ds, c # r)"
    using scan_digits [OF assms(2), of "c # r" 0 0] assms(3) by (simp add: decimal_def)
  then show ?thesis using assms(1) sign by (simp add: SetString_def ds)
qed




lemma isDigit_char_of: "k < 10 \<Longrightarrow> isDigit (char_of (48 + k :: nat))"
  by (simp add: isDigit_def)

lemma digitVal_char_of: "k < 10 \<Longrightarrow> digitVal (char_of (48 + k :: nat)) = k"
  by (simp add: digitVal_def)

lemma utoa_not_Nil: "utoa n \<noteq> []"
  by (subst utoa.simps) simp

lemma utoa_digits: "\<forall>d\<in>set (utoa n). isDigit d"
proof (induction n rule: utoa.induct)
  case (1 n)
  show ?case
  proof (cases "n < 10")
    case True
    then show ?thesis by (subst utoa.simps) (simp add: isDigit_char_of)
  next
    case False
    with "1.IH" show ?thesis by (subst utoa.simps) (simp add: isDigit_char_of)
  qed
qed

lemma decimal_utoa: "decimal (utoa n) = n"
proof (induction n rule: utoa.induct)
  case (1 n)
  show ?case
  proof (cases "n < 10")
    case True
    then show ?thesis by (subst utoa.simps) (simp add: decimal_def digitVal_char_of)
  next
    case False
    with "1.IH" show ?thesis
      by (subst utoa.simps) (simp add: decimal_snoc digitVal_char_of)
  qed
qed

lemma sint_sub_small:
  fixes p :: "64 word"
  assumes "0 \<le> sint p" and "n < 2 ^ 63"
  shows "sint (p - of_nat n) = sint p - int n"
proof -
  have n: "sint (of_nat n :: 64 word) = int n"
  proof -
    have "(of_nat n :: 64 word) = word_of_int (int n)" by simp
    then have "sint (of_nat n :: 64 word) = signed_take_bit 63 (int n)"
      by (simp only: sint_sbintrunc') simp
    also have "\<dots> = int n"
      using assms(2) by (intro signed_take_bit_int_eq_self) auto
    finally show ?thesis .
  qed
  have "sint p < 2 ^ 63" using sint_lt [of p] by simp
  then have "- (2 ^ 63) \<le> sint p - int n" "sint p - int n < 2 ^ 63"
    using assms by auto
  then show ?thesis
    by (simp add: sint_word_ariths n signed_take_bit_int_eq_self)
qed

lemma sint_neg_small:
  fixes p :: "64 word"
  assumes "0 \<le> sint p"
  shows "sint (- p) = - sint p"
proof -
  have "sint p < 2 ^ 63" using sint_lt [of p] by simp
  then have "- (2 ^ 63) \<le> - sint p" "- sint p < 2 ^ 63"
    using assms by auto
  then show ?thesis
    by (simp add: sint_word_ariths signed_take_bit_int_eq_self)
qed


section \<open>Properties of the two conversion functions\<close>

lemma hd_Split: "hd (Split r sep) = takeWhile (\<lambda>ch. ch \<noteq> sep) r"
  by (induction r) (auto simp: Split_not_Nil split: list.splits)

lemma parts_no_dot:
  assumes "CHR ''.'' \<notin> set s"
  shows "ToIntByPrecise_parts s = [TrimSpace s, ''0'']"
proof -
  have "CHR ''.'' \<notin> set (TrimSpace s)"
    using assms TrimSpace_subset [of s] by blast
  then have "Split (TrimSpace s) (CHR ''.'') = [TrimSpace s]"
    by (rule Split_no_sep)
  then show ?thesis by (simp add: ToIntByPrecise_parts_def)
qed

lemma parts_dot:
  assumes "TrimSpace s = a @ CHR ''.'' # r" and "CHR ''.'' \<notin> set a"
  shows "ToIntByPrecise_parts s = a # Split r (CHR ''.'')"
proof -
  have "Split (TrimSpace s) (CHR ''.'') = a # Split r (CHR ''.'')"
    using assms by (simp add: Split_first_sep)
  moreover have "length (a # Split r (CHR ''.'')) \<noteq> 1"
    using Split_not_Nil [of r "CHR ''.''"] by simp
  ultimately show ?thesis by (simp add: ToIntByPrecise_parts_def)
qed

lemma ToStringByPrecise_Some:
  assumes "v < length h"
  shows "ToStringByPrecise h (Some v) p =
    (let e = (if - p <s 0 then 0 else - p); q = h ! v div 10 ^ nat (sint e)
     in Inr (itoa q, h @ [q, 10 ^ nat (sint e), 10, sint e]))"
proof -
  define e where "e = (if - p <s 0 then 0 else - p)"
  have e: "0 \<le> sint e" by (auto simp: e_def word_sless_alt)
  have pow: "(if sint e \<le> 0 then 1 else 10 ^ nat (sint e)) = (10::int) ^ nat (sint e)"
    using e by (cases "sint e = 0") auto
  have pos: "(0::int) < 10 ^ nat (sint e)" by simp
  show ?thesis
    using assms pos
    unfolding ToStringByPrecise_def newInt_def NewInt_def Int_Set_def Int_Exp_def Int_Div_def
      Int_String_def Let_def e_def [symmetric]
    by (simp add: nth_append pow list_update_append e_def [symmetric])
qed

lemma char_of_digit:
  "char_of (48::nat) = CHR ''0''" "char_of (49::nat) = CHR ''1''" "char_of (50::nat) = CHR ''2''"
  "char_of (51::nat) = CHR ''3''" "char_of (52::nat) = CHR ''4''" "char_of (53::nat) = CHR ''5''"
  "char_of (54::nat) = CHR ''6''" "char_of (55::nat) = CHR ''7''" "char_of (56::nat) = CHR ''8''"
  "char_of (57::nat) = CHR ''9''"
  by code_simp+

lemmas ToIntByPrecise_eval =
  ToIntByPrecise_def ToIntByPrecise_precise_def ToIntByPrecise_value_def ToIntByPrecise_parts_def
  TrimSpace_def TrimLeftSpace_def TrimRightSpace_def dropRunes.simps spaceRunes_def
  SetString_def isDigit_def digitVal_def word_sless_alt Exp_def

lemma TrimSpace_digits_dot:
  assumes "s \<noteq> []" and "\<forall>ch\<in>set s. isDigit ch \<or> ch = CHR ''.''"
  shows "TrimSpace s = s"
proof -
  have plain: "ch \<notin> set (concat spaceRunes)" if "ch \<in> set s" for ch
  proof (cases "isDigit ch")
    case True
    then show ?thesis by (rule isDigit_not_space)
  next
    case False
    from assms(2) that have "isDigit ch \<or> ch = CHR ''.''" by (rule bspec)
    with False have "ch = CHR ''.''" by simp
    then show ?thesis by (simp only: dot_not_space not_False_eq_True)
  qed
  have "hd s \<in> set s" "last s \<in> set s" using assms(1) by simp_all
  then have "hd s \<notin> set (concat spaceRunes)" "last s \<notin> set (concat spaceRunes)"
    by (simp_all only: plain not_False_eq_True)
  then show ?thesis using TrimSpace_plain [of s] by simp
qed

lemma precise_nonneg: "0 \<le> sint (ToIntByPrecise_precise s p)"
  by (auto simp: ToIntByPrecise_precise_def Let_def word_sless_alt)

lemma ToIntByPrecise_result:
  "ToIntByPrecise cap s p =
     (if 0 <s ToIntByPrecise_precise s p
      then (if nat (sint (ToIntByPrecise_precise s p)) \<le> cap
            then Some (fst (SetString 0 (ToIntByPrecise_value s))
                       * 10 ^ nat (sint (ToIntByPrecise_precise s p)))
            else None)
      else Some (fst (SetString 0 (ToIntByPrecise_value s))))"
  by (auto simp: ToIntByPrecise_def Exp_def Let_def word_sless_alt)

lemma ToIntByPrecise_within:
  assumes "sint (ToIntByPrecise_precise s p) \<le> int cap"
  shows "ToIntByPrecise cap s p =
           Some (fst (SetString 0 (ToIntByPrecise_value s))
                 * 10 ^ nat (sint (ToIntByPrecise_precise s p)))"
proof (cases "0 <s ToIntByPrecise_precise s p")
  case True
  with assms show ?thesis by (simp add: ToIntByPrecise_result)
next
  case False
  then have "sint (ToIntByPrecise_precise s p) = 0"
    using precise_nonneg [of s p] by (simp add: word_sless_alt)
  with False show ?thesis by (simp add: ToIntByPrecise_result)
qed

lemma ToIntByPrecise_capacity_mono:
  assumes "ToIntByPrecise cap s p = None" and "cap' \<le> cap"
  shows "ToIntByPrecise cap' s p = None"
  using assms by (auto simp: ToIntByPrecise_result split: if_splits)

lemma utoa_parts:
  "ToIntByPrecise_parts (utoa q) = [utoa q, ''0'']"
  "ToIntByPrecise_value (utoa q) = utoa q @ ''0''"
  "fst (SetString 0 (ToIntByPrecise_value (utoa q))) = int q * 10"
proof -
  let ?s = "utoa q"
  have digits: "\<forall>d\<in>set ?s. isDigit d" by (rule utoa_digits)
  have ne: "?s \<noteq> []" by (rule utoa_not_Nil)
  have nodot: "CHR ''.'' \<notin> set ?s"
    using digits isDigit_not_dot by blast
  have "\<forall>ch\<in>set ?s. isDigit ch \<or> ch = CHR ''.''"
    using digits by simp
  with ne have trim: "TrimSpace ?s = ?s" by (rule TrimSpace_digits_dot)
  show parts: "ToIntByPrecise_parts ?s = [?s, ''0'']"
    using parts_no_dot [OF nodot] by (simp add: trim)
  show val: "ToIntByPrecise_value ?s = ?s @ ''0''"
    by (simp add: ToIntByPrecise_value_def parts)
  have zero: "isDigit (CHR ''0'')" "digitVal (CHR ''0'') = 0"
    by (simp_all add: isDigit_def digitVal_def)
  have "SetString 0 (?s @ ''0'') = (int (decimal (?s @ ''0'')), True)"
    using digits zero(1) by (intro SetString_digits) auto
  then show "fst (SetString 0 (ToIntByPrecise_value ?s)) = int q * 10"
    by (simp add: val decimal_snoc decimal_utoa zero(2))
qed

lemma ToIntByPrecise_utoa_0: "ToIntByPrecise cap (utoa q) 0 = Some (10 * int q)"
proof -
  have "ToIntByPrecise_precise (utoa q) 0 = 0"
    by (simp add: ToIntByPrecise_precise_def utoa_parts(1) word_sless_alt)
  then show ?thesis by (simp add: ToIntByPrecise_result utoa_parts(3))
qed

lemma ToIntByPrecise_utoa:
  assumes "0 <s p" and "sint p - 1 \<le> int cap"
  shows "ToIntByPrecise cap (utoa q) p = Some (int q * 10 ^ nat (sint p))"
proof -
  let ?s = "utoa q"
  have p1: "1 \<le> sint p" using assms(1) by (simp add: word_sless_alt)
  have "sint (p - of_nat 1) = sint p - int 1"
    using p1 by (intro sint_sub_small) auto
  then have sub: "sint (p - 1) = sint p - 1" by simp
  then have "\<not> p - 1 <s 0" using p1 by (simp add: word_sless_alt)
  then have prec: "ToIntByPrecise_precise ?s p = p - 1"
    by (simp add: ToIntByPrecise_precise_def utoa_parts(1))
  have step: "(10::int) * 10 ^ nat (sint p - 1) = 10 ^ nat (sint p)"
  proof -
    have "nat (sint p) = Suc (nat (sint p - 1))" using p1 by simp
    then show ?thesis by simp
  qed
  have "ToIntByPrecise cap ?s p = Some (int q * 10 * 10 ^ nat (sint p - 1))"
    using assms(2) ToIntByPrecise_within [of ?s p cap]
    by (simp add: prec sub utoa_parts(3))
  then show ?thesis using step by (simp add: mult.assoc)
qed

section \<open>ToStringByPrecise\<close>

text \<open>
  What the function computes for a non-nil argument. With a precision \<open>p \<ge> 0\<close> the
  exponent is 0 and the result is the decimal string of the value itself. With a negative
  precision (other than the least \<^verbatim>\<open>int64\<close>, which negation leaves as it is) the
  exponent is \<open>-p\<close> and the result is the string of the floor of the value divided by
  \<open>10^(-p)\<close>.
\<close>

lemma ToStringByPrecise_nonneg_precision:
  assumes "v < length h" and "0 \<le>s p"
  shows "\<exists>h'. ToStringByPrecise h (Some v) p = Inr (itoa (h ! v), h')"
proof -
  have p0: "0 \<le> sint p" using assms(2) by (simp add: word_sle_eq)
  then have neg: "sint (- p) = - sint p" by (rule sint_neg_small)
  have e: "(if - p <s 0 then 0 else - p) = 0"
  proof (cases "- p <s 0")
    case True
    then show ?thesis by simp
  next
    case False
    then have "sint (- p) = 0" using neg p0 by (simp add: word_sless_alt)
    then have "- p = 0" by (simp only: signed_eq_0_iff)
    then show ?thesis by simp
  qed
  show ?thesis
    using assms(1) by (simp add: ToStringByPrecise_Some e Let_def)
qed

lemma ToStringByPrecise_negative_precision:
  assumes "v < length h" and "sint p < 0" and "- (2 ^ 63) < sint p"
  shows "\<exists>h'. ToStringByPrecise h (Some v) p
           = Inr (itoa (h ! v div 10 ^ nat (- sint p)), h')"
proof -
  have "- (2 ^ 63) \<le> - sint p" "- sint p < 2 ^ 63"
    using assms(2,3) by auto
  then have neg: "sint (- p) = - sint p"
    by (simp add: sint_word_ariths signed_take_bit_int_eq_self)
  then have "\<not> - p <s 0" using assms(2) by (simp add: word_sless_alt)
  then have e: "(if - p <s 0 then 0 else - p) = - p" by simp
  show ?thesis
    using assms(1) by (simp add: ToStringByPrecise_Some e neg Let_def)
qed

text \<open>
  C1 (for a non-nil value and a precision \<open>p \<ge> 0\<close> the result is the decimal string of
  the floor of the value divided by \<open>10^p\<close>; 1500000000000000000 at 18 gives "1" and
  2999999999999999999 at 18 gives "2"). The code does not do this: line 166 negates the
  precision, so 18 becomes -18, line 168 replaces it by 0, and the value is divided by
  \<open>10^0 = 1\<close>. Both examples come back with all their digits.
\<close>

theorem ToStringByPrecise_18_unscaled:
  "ToStringByPrecise [1500000000000000000] (Some 0) 18
     = Inr (''1500000000000000000'', [1500000000000000000, 1500000000000000000, 1, 10, 0])
   \<and> ToStringByPrecise [2999999999999999999] (Some 0) 18
     = Inr (''2999999999999999999'', [2999999999999999999, 2999999999999999999, 1, 10, 0])"
  by (simp add: ToStringByPrecise_Some itoa_def utoa.simps char_of_digit word_sless_alt)

text \<open>
  C2 (a negative precision such as -1 is treated as exponent 0 and the string of the value
  itself is returned). The code does not do this: line 166 turns -1 into 1, which the
  guard of line 167 lets through, and the value is divided by 10. For 25 the result is "2".
\<close>

theorem ToStringByPrecise_minus_1_scaled:
  "ToStringByPrecise [25] (Some 0) (- 1) = Inr (''2'', [25, 2, 10, 10, 1])"
  by (simp add: ToStringByPrecise_Some itoa_def utoa.simps char_of_digit word_sless_alt)

text \<open>
  C8: for every precision, \<^verbatim>\<open>ToStringByPrecise\<close> applied to \<^verbatim>\<open>nil\<close> returns the
  string "0"; it does not panic and leaves the store as it is.
\<close>

theorem ToStringByPrecise_nil: "ToStringByPrecise h None p = Inr (''0'', h)"
  by (simp add: ToStringByPrecise_def)

text \<open>
  C9: for every non-nil argument (an address \<open>v\<close> of the store) and every precision,
  \<^verbatim>\<open>ToStringByPrecise\<close> returns a string, and the store after the call holds at \<open>v\<close>
  the value it held before: the division writes to the copy made on line 165. All cells
  that existed before the call are unchanged.
\<close>

theorem ToStringByPrecise_frame:
  assumes "v < length h"
  shows "\<exists>s h'. ToStringByPrecise h (Some v) p = Inr (s, h') \<and> h' ! v = h ! v
           \<and> take (length h) h' = h"
  using assms by (simp add: ToStringByPrecise_Some Let_def nth_append)

theorem ToStringByPrecise_frame_witness:
  "(0::nat) < length [1500000000000000000::int]
   \<and> (\<exists>s h'. ToStringByPrecise [1500000000000000000] (Some 0) 18 = Inr (s, h')
         \<and> h' ! 0 = 1500000000000000000)"
proof -
  have v: "(0::nat) < length [1500000000000000000::int]" by simp
  show ?thesis using v ToStringByPrecise_frame [OF v, of 18] by auto
qed

section \<open>ToIntByPrecise\<close>




text \<open>
  C4 (for \<open>n \<ge> 0\<close> and \<open>p \<ge> 0\<close>, converting \<open>n\<close> to a string at precision \<open>p\<close> and back
  gives at most \<open>n\<close>, less than \<open>10^p\<close> below it). At \<open>n = 1\<close>, \<open>p = 0\<close> the string is
  "1"; without a \<^verbatim>\<open>.\<close> the digit "0" is appended and the result is 10.
\<close>

theorem roundtrip_counterexample:
  "ToStringByPrecise [1] (Some 0) 0 = Inr (''1'', [1, 1, 1, 10, 0])
   \<and> ToIntByPrecise 18 ''1'' 0 = Some 10"
  by (simp add: ToStringByPrecise_Some itoa_def utoa.simps char_of_digit ToIntByPrecise_eval)

text \<open>
  C4 as the code has it, for the two functions composed at precision 0, where the sign
  flip of line 166 changes nothing: for every \<open>n \<ge> 0\<close>, \<^verbatim>\<open>ToStringByPrecise\<close> returns a
  string, and \<^verbatim>\<open>ToIntByPrecise\<close> of that string at precision 0 returns \<open>10 * n\<close>, whatever
  the machine holds. So \<open>n\<close> minus the result is below \<open>10^0\<close>, and the result is at most
  \<open>n\<close> only for \<open>n = 0\<close>.
\<close>

theorem roundtrip_precision_0:
  assumes "v < length h" and "0 \<le> h ! v"
  shows "\<exists>s h'. ToStringByPrecise h (Some v) 0 = Inr (s, h')
           \<and> ToIntByPrecise cap s 0 = Some (10 * h ! v)"
proof -
  have "ToStringByPrecise h (Some v) 0
          = Inr (itoa (h ! v), h @ [h ! v, 1, 10, 0])"
    using assms(1) by (simp add: ToStringByPrecise_Some Let_def)
  moreover have "itoa (h ! v) = utoa (nat (h ! v))"
    using assms(2) by (simp add: itoa_def)
  moreover have "ToIntByPrecise cap (utoa (nat (h ! v))) 0 = Some (10 * h ! v)"
    using assms(2) by (simp add: ToIntByPrecise_utoa_0)
  ultimately show ?thesis by simp
qed

theorem roundtrip_precision_0_witness:
  "(0::nat) < length [2999999999999999999::int] \<and> (0::int) \<le> [2999999999999999999] ! 0
   \<and> (\<exists>s h'. ToStringByPrecise [2999999999999999999] (Some 0) 0 = Inr (s, h')
         \<and> ToIntByPrecise 18 s 0 = Some 29999999999999999990)"
proof -
  have a: "(0::nat) < length [2999999999999999999::int]" by simp
  have b: "(0::int) \<le> [2999999999999999999] ! 0" by simp
  show ?thesis
    using a b roundtrip_precision_0 [OF a b, of 18] by simp
qed

text \<open>
  The bound of C4 for \<^verbatim>\<open>ToIntByPrecise\<close> alone: for \<open>n \<ge> 0\<close> and a precision \<open>p \<ge> 1\<close>
  within the machine, the decimal string of the floor of \<open>n / 10^p\<close> converts to a value
  that is at most \<open>n\<close> and less than \<open>10^p\<close> below it. \<^verbatim>\<open>ToStringByPrecise\<close> does not
  produce that string (see C1).
\<close>

lemma ToIntByPrecise_quotient_bounds:
  assumes "0 \<le> n" and "0 <s p" and "sint p - 1 \<le> int cap"
  shows "\<exists>r. ToIntByPrecise cap (itoa (n div 10 ^ nat (sint p))) p = Some r
           \<and> r \<le> n \<and> n - r < 10 ^ nat (sint p)"
proof -
  let ?m = "(10::int) ^ nat (sint p)"
  have m: "0 < ?m" by simp
  have q: "0 \<le> n div ?m" using assms(1) m by (simp add: pos_imp_zdiv_nonneg_iff)
  then have "itoa (n div ?m) = utoa (nat (n div ?m))" by (simp add: itoa_def)
  then have r: "ToIntByPrecise cap (itoa (n div ?m)) p = Some (n div ?m * ?m)"
    using ToIntByPrecise_utoa [OF assms(2,3), of "nat (n div ?m)"] q by simp
  have "n div ?m * ?m = n - n mod ?m" by (simp add: minus_mod_eq_div_mult)
  moreover have "0 \<le> n mod ?m" "n mod ?m < ?m" using m by simp_all
  ultimately have "n div ?m * ?m \<le> n" "n - n div ?m * ?m < ?m" by linarith+
  with r show ?thesis by blast
qed

text \<open>
  C5 (the input is split at its first \<^verbatim>\<open>.\<close> only, so that "1.2.3" has the fractional
  part "2.3" and fails to parse). \<^verbatim>\<open>Split\<close> cuts at every \<^verbatim>\<open>.\<close> and only the first
  two pieces are used: for "1.2.3" the fractional part is "2", the digit string "12" parses,
  and the result at precision 2 is 120.
\<close>

theorem ToIntByPrecise_second_dot_counterexample:
  "ToIntByPrecise_parts ''1.2.3'' ! 1 = ''2''
   \<and> SetString 0 (ToIntByPrecise_value ''1.2.3'') = (12, True)
   \<and> ToIntByPrecise 18 ''1.2.3'' 2 = Some 120"
  by (simp add: ToIntByPrecise_eval)

text \<open>
  C5 as the code has it: when the trimmed input has a \<^verbatim>\<open>.\<close>, the integer part is the
  text before the first \<^verbatim>\<open>.\<close> and the fractional part is the text after it up to the
  next \<^verbatim>\<open>.\<close>, or up to the end when there is none. The digit string and the precision
  used are built from these two; what follows a second \<^verbatim>\<open>.\<close> takes no part.
\<close>

theorem ToIntByPrecise_split:
  assumes "TrimSpace s = a @ CHR ''.'' # r" and "CHR ''.'' \<notin> set a"
  shows "ToIntByPrecise_parts s ! 0 = a
    \<and> ToIntByPrecise_parts s ! 1 = takeWhile (\<lambda>ch. ch \<noteq> CHR ''.'') r
    \<and> ToIntByPrecise_value s = a @ takeWhile (\<lambda>ch. ch \<noteq> CHR ''.'') r
    \<and> ToIntByPrecise_precise s p =
        (if p - of_nat (length (takeWhile (\<lambda>ch. ch \<noteq> CHR ''.'') r)) <s 0 then 0
         else p - of_nat (length (takeWhile (\<lambda>ch. ch \<noteq> CHR ''.'') r)))"
proof -
  have parts: "ToIntByPrecise_parts s = a # Split r (CHR ''.'')"
    using assms by (rule parts_dot)
  have "Split r (CHR ''.'') ! 0 = hd (Split r (CHR ''.''))"
    using Split_not_Nil [of r "CHR ''.''"] by (simp add: hd_conv_nth)
  then have 1: "ToIntByPrecise_parts s ! 1 = takeWhile (\<lambda>ch. ch \<noteq> CHR ''.'') r"
    by (simp add: parts hd_Split)
  have 0: "ToIntByPrecise_parts s ! 0 = a" by (simp add: parts)
  have val: "ToIntByPrecise_value s = a @ takeWhile (\<lambda>ch. ch \<noteq> CHR ''.'') r"
    unfolding ToIntByPrecise_value_def 0 1 ..
  have prec: "ToIntByPrecise_precise s p =
        (if p - of_nat (length (takeWhile (\<lambda>ch. ch \<noteq> CHR ''.'') r)) <s 0 then 0
         else p - of_nat (length (takeWhile (\<lambda>ch. ch \<noteq> CHR ''.'') r)))"
    unfolding ToIntByPrecise_precise_def 1 Let_def ..
  from 0 1 val prec show ?thesis by (intro conjI)
qed

theorem ToIntByPrecise_split_witness:
  "TrimSpace ''1.2.3'' = ''1'' @ CHR ''.'' # ''2.3'' \<and> CHR ''.'' \<notin> set ''1''
   \<and> ToIntByPrecise_parts ''1.2.3'' ! 0 = ''1'' \<and> ToIntByPrecise_parts ''1.2.3'' ! 1 = ''2''
   \<and> ToIntByPrecise_value ''1.2.3'' = ''12'' \<and> ToIntByPrecise_precise ''1.2.3'' 2 = 1"
proof -
  have a: "TrimSpace ''1.2.3'' = ''1'' @ CHR ''.'' # ''2.3''"
    by (simp add: TrimSpace_def TrimLeftSpace_def TrimRightSpace_def dropRunes.simps spaceRunes_def)
  have b: "CHR ''.'' \<notin> set ''1''" by simp
  show ?thesis
    using a b ToIntByPrecise_split [OF a b, of 2] by (simp add: word_sless_alt)
qed

text \<open>
  C6: for every input without a \<^verbatim>\<open>.\<close>, the missing fractional part is the one digit
  "0": \<^verbatim>\<open>parts\<close> is the trimmed input and "0", the digit string is the trimmed input
  followed by "0", and the precision used is \<open>precise - 1\<close> (in \<^verbatim>\<open>int64\<close>, replaced by 0
  when negative). The result is the value \<^verbatim>\<open>SetString\<close> leaves for that digit string,
  multiplied by \<open>10^(precise - 1)\<close> when \<open>precise - 1\<close> is positive and its power within
  the machine. In particular \<^verbatim>\<open>ToIntByPrecise("5", 2)\<close> is 500.
\<close>

theorem ToIntByPrecise_no_fraction:
  assumes "CHR ''.'' \<notin> set s"
  shows "ToIntByPrecise_parts s = [TrimSpace s, ''0'']
    \<and> ToIntByPrecise_value s = TrimSpace s @ ''0''
    \<and> ToIntByPrecise_precise s p = (if p - 1 <s 0 then 0 else p - 1)
    \<and> ToIntByPrecise cap s p =
        (if 0 <s p - 1
         then (if nat (sint (p - 1)) \<le> cap
               then Some (fst (SetString 0 (TrimSpace s @ ''0'')) * 10 ^ nat (sint (p - 1)))
               else None)
         else Some (fst (SetString 0 (TrimSpace s @ ''0''))))"
proof -
  have parts: "ToIntByPrecise_parts s = [TrimSpace s, ''0'']"
    using assms by (rule parts_no_dot)
  have val: "ToIntByPrecise_value s = TrimSpace s @ ''0''"
    by (simp add: ToIntByPrecise_value_def parts)
  have prec: "ToIntByPrecise_precise s p = (if p - 1 <s 0 then 0 else p - 1)"
    by (simp add: ToIntByPrecise_precise_def parts)
  have "ToIntByPrecise cap s p =
        (if 0 <s p - 1
         then (if nat (sint (p - 1)) \<le> cap
               then Some (fst (SetString 0 (TrimSpace s @ ''0'')) * 10 ^ nat (sint (p - 1)))
               else None)
         else Some (fst (SetString 0 (TrimSpace s @ ''0''))))"
    by (auto simp: ToIntByPrecise_result val prec word_sless_alt)
  with parts val prec show ?thesis by blast
qed

theorem ToIntByPrecise_no_fraction_witness:
  "CHR ''.'' \<notin> set ''5'' \<and> ToIntByPrecise_value ''5'' = ''50'' \<and> ToIntByPrecise_precise ''5'' 2 = 1
     \<and> ToIntByPrecise 18 ''5'' 2 = Some 500"
proof -
  have d: "CHR ''.'' \<notin> set ''5''" by simp
  have t: "TrimSpace ''5'' = ''5''"
    by (simp add: TrimSpace_def TrimLeftSpace_def TrimRightSpace_def dropRunes.simps spaceRunes_def)
  show ?thesis
    using d ToIntByPrecise_no_fraction [OF d, of 2 18]
    by (simp add: t SetString_def isDigit_def digitVal_def word_sless_alt)
qed

text \<open>
  C7: for digit strings \<open>ip\<close> and \<open>fp\<close> and a precision \<open>0 \<le> p < length fp\<close>, the input
  \<open>ip.fp\<close> is converted with the precision clamped to 0: the parse succeeds and the result
  is the number written by all the digits of \<open>ip\<close> and \<open>fp\<close>, whatever the machine holds
  (no power is built). In particular \<^verbatim>\<open>ToIntByPrecise("0.123", 2)\<close> is 123. (A Go string
  is shorter than \<open>2^63\<close> bytes.)
\<close>

theorem ToIntByPrecise_excess_fraction:
  assumes "\<forall>d\<in>set ip. isDigit d" and "\<forall>d\<in>set fp. isDigit d"
    and "0 \<le>s p" and "sint p < int (length fp)" and "length fp < 2 ^ 63"
  shows "ToIntByPrecise_precise (ip @ CHR ''.'' # fp) p = 0
    \<and> SetString 0 (ToIntByPrecise_value (ip @ CHR ''.'' # fp)) = (int (decimal (ip @ fp)), True)
    \<and> ToIntByPrecise cap (ip @ CHR ''.'' # fp) p = Some (int (decimal (ip @ fp)))"
proof -
  let ?s = "ip @ CHR ''.'' # fp"
  have p0: "0 \<le> sint p" using assms(3) by (simp add: word_sle_eq)
  then have fp: "fp \<noteq> []" using assms(4) by auto
  have "\<forall>ch\<in>set ?s. isDigit ch \<or> ch = CHR ''.''"
    using assms(1,2) by auto
  then have trim: "TrimSpace ?s = ?s"
    by (intro TrimSpace_digits_dot) simp_all
  have nodot: "CHR ''.'' \<notin> set ip" "CHR ''.'' \<notin> set fp"
    using assms(1,2) isDigit_not_dot by blast+
  have "ToIntByPrecise_parts ?s = ip # Split fp (CHR ''.'')"
    using trim nodot(1) by (rule parts_dot)
  then have parts: "ToIntByPrecise_parts ?s = [ip, fp]"
    by (simp add: Split_no_sep nodot(2))
  have "sint (p - of_nat (length fp)) = sint p - int (length fp)"
    using p0 assms(5) by (rule sint_sub_small)
  then have "p - of_nat (length fp) <s 0"
    using assms(4) by (simp add: word_sless_alt)
  then have prec: "ToIntByPrecise_precise ?s p = 0"
    by (simp add: ToIntByPrecise_precise_def parts)
  have val: "ToIntByPrecise_value ?s = ip @ fp"
    by (simp add: ToIntByPrecise_value_def parts)
  have "SetString 0 (ip @ fp) = (int (decimal (ip @ fp)), True)"
    using fp assms(1,2) by (intro SetString_digits) auto
  then show ?thesis by (simp add: ToIntByPrecise_result prec val)
qed

theorem ToIntByPrecise_excess_fraction_witness:
  "list_all isDigit ''0'' \<and> list_all isDigit ''123'' \<and> 0 \<le>s (2 :: 64 word)
   \<and> sint (2 :: 64 word) < int (length ''123'') \<and> length ''123'' < 2 ^ 63
   \<and> ToIntByPrecise_precise ''0.123'' 2 = 0 \<and> ToIntByPrecise 0 ''0.123'' 2 = Some 123"
proof -
  have a: "\<forall>d\<in>set ''0''. isDigit d" by (simp add: isDigit_def)
  have b: "\<forall>d\<in>set ''123''. isDigit d" by (simp add: isDigit_def)
  have c: "0 \<le>s (2 :: 64 word)" by (simp add: word_sle_eq)
  have d: "sint (2 :: 64 word) < int (length ''123'')" by simp
  have e: "length ''123'' < 2 ^ 63" by simp
  have f: "decimal ''0123'' = 123" by (simp add: decimal_def digitVal_def)
  show ?thesis
    using a b c d e ToIntByPrecise_excess_fraction [OF a b c d e, of 0]
    by (simp add: f list_all_iff)
qed

text \<open>
  C10 (for every precision, the empty string and every string of white space only give 0
  without an error). At the least \<^verbatim>\<open>int64\<close> the subtraction of line 148 wraps around to
  the greatest, \<open>2^63 - 1\<close>, and line 156 has to build \<open>10^(2^63 - 1)\<close> before it can
  multiply 0 by it: the call does not return, not even on a machine that holds
  \<open>10^(2^62)\<close>, a number of more than \<open>10^18\<close> bytes (and so on no smaller one, by
  \<open>ToIntByPrecise_capacity_mono\<close>).
\<close>

theorem ToIntByPrecise_blank_counterexample:
  "ToIntByPrecise_precise '''' (- 9223372036854775808) = 9223372036854775807
   \<and> ToIntByPrecise (2 ^ 62) '''' (- 9223372036854775808) = None"
  by (simp add: ToIntByPrecise_eval)

text \<open>
  C10 as the code has it: for the empty string and for every string made of white space
  only (a concatenation of encoded white-space runes), trimming leaves the empty string and
  the digit string is "0"; for every precision \<open>p\<close> whose \<open>p - 1\<close> (in \<^verbatim>\<open>int64\<close>) is
  within the exponents the machine builds a power of ten for, in particular for every
  \<open>p\<close> from \<open>-2^63 + 1\<close> to 1, the function returns 0.
\<close>

theorem ToIntByPrecise_blank:
  assumes "set ws \<subseteq> set spaceRunes" and "sint (p - 1) \<le> int cap"
  shows "ToIntByPrecise_value (concat ws) = ''0'' \<and> ToIntByPrecise cap (concat ws) p = Some 0"
proof -
  have "TrimSpace (concat ws) = []" using assms(1) by (rule TrimSpace_spaces)
  then have parts: "ToIntByPrecise_parts (concat ws) = ['''', ''0'']"
    by (simp add: ToIntByPrecise_parts_def)
  then have val: "ToIntByPrecise_value (concat ws) = ''0''"
    by (simp add: ToIntByPrecise_value_def)
  have prec: "ToIntByPrecise_precise (concat ws) p = (if p - 1 <s 0 then 0 else p - 1)"
    by (simp add: ToIntByPrecise_precise_def parts)
  have "sint (ToIntByPrecise_precise (concat ws) p) \<le> int cap"
    using assms(2) by (simp add: prec)
  moreover have "SetString 0 ''0'' = (0, True)"
    by (simp add: SetString_def isDigit_def digitVal_def)
  ultimately show ?thesis
    using ToIntByPrecise_within [of "concat ws" p cap] by (simp add: val)
qed

theorem ToIntByPrecise_blank_witness:
  "set ['' '', [CHR 0x09], [CHR 0xC2, CHR 0xA0]] \<subseteq> set spaceRunes
   \<and> sint (18 - 1 :: 64 word) \<le> int 18
   \<and> ToIntByPrecise 18 [CHR '' '', CHR 0x09, CHR 0xC2, CHR 0xA0] 18 = Some 0
   \<and> set ([] :: string list) \<subseteq> set spaceRunes \<and> sint (0 - 1 :: 64 word) \<le> int 0
   \<and> ToIntByPrecise 0 '''' 0 = Some 0"
proof -
  have w: "set ['' '', [CHR 0x09], [CHR 0xC2, CHR 0xA0]] \<subseteq> set spaceRunes"
    by (simp add: spaceRunes_def)
  have e: "set ([] :: string list) \<subseteq> set spaceRunes" by simp
  have b: "sint (18 - 1 :: 64 word) \<le> int 18" by simp
  have z: "sint (0 - 1 :: 64 word) \<le> int 0" by simp
  show ?thesis
    using w e b z ToIntByPrecise_blank [OF w b] ToIntByPrecise_blank [OF e z] by simp
qed

text \<open>
  The conversion of a decimal amount whose fractional part fits the precision: for digit
  strings \<open>ip\<close> and \<open>fp\<close>, not both empty, and a precision \<open>p \<ge> length fp\<close> with
  \<open>p - length fp\<close> within the machine, the input \<open>ip.fp\<close> gives the number written by the
  digits of \<open>ip\<close> and \<open>fp\<close> times \<open>10^(p - length fp)\<close>. In particular
  \<^verbatim>\<open>ToIntByPrecise("0.01", 18)\<close> is \<open>10^16\<close>, the amount main.go passes to the swap.
\<close>

lemma ToIntByPrecise_standard:
  assumes "\<forall>d\<in>set ip. isDigit d" and "\<forall>d\<in>set fp. isDigit d" and "ip @ fp \<noteq> []"
    and "int (length fp) \<le> sint p" and "sint p - int (length fp) \<le> int cap"
  shows "ToIntByPrecise cap (ip @ CHR ''.'' # fp) p
       = Some (int (decimal (ip @ fp)) * 10 ^ (nat (sint p) - length fp))"
proof -
  let ?s = "ip @ CHR ''.'' # fp"
  have p0: "0 \<le> sint p" using assms(4) by simp
  have "sint p < 2 ^ 63" using sint_lt [of p] by simp
  then have len: "length fp < 2 ^ 63" using assms(4) by simp
  have "\<forall>ch\<in>set ?s. isDigit ch \<or> ch = CHR ''.''"
    using assms(1,2) by auto
  then have trim: "TrimSpace ?s = ?s"
    by (intro TrimSpace_digits_dot) simp_all
  have nodot: "CHR ''.'' \<notin> set ip" "CHR ''.'' \<notin> set fp"
    using assms(1,2) isDigit_not_dot by blast+
  have "ToIntByPrecise_parts ?s = ip # Split fp (CHR ''.'')"
    using trim nodot(1) by (rule parts_dot)
  then have parts: "ToIntByPrecise_parts ?s = [ip, fp]"
    by (simp add: Split_no_sep nodot(2))
  have sub: "sint (p - of_nat (length fp)) = sint p - int (length fp)"
    using p0 len by (rule sint_sub_small)
  then have "\<not> p - of_nat (length fp) <s 0"
    using assms(4) by (simp add: word_sless_alt)
  then have prec: "ToIntByPrecise_precise ?s p = p - of_nat (length fp)"
    by (simp add: ToIntByPrecise_precise_def parts)
  have val: "ToIntByPrecise_value ?s = ip @ fp"
    by (simp add: ToIntByPrecise_value_def parts)
  have "SetString 0 (ip @ fp) = (int (decimal (ip @ fp)), True)"
    using assms(1-3) by (intro SetString_digits) auto
  then have bi: "fst (SetString 0 (ToIntByPrecise_value ?s)) = int (decimal (ip @ fp))"
    by (simp add: val)
  have ex: "nat (sint p - int (length fp)) = nat (sint p) - length fp" by simp
  have "sint (ToIntByPrecise_precise ?s p) \<le> int cap"
    using assms(5) by (simp add: prec sub)
  then show ?thesis
    using ToIntByPrecise_within [of ?s p cap] by (simp add: prec sub bi ex)
qed

lemma ToIntByPrecise_standard_example:
  "ToIntByPrecise 18 ''0.01'' 18 = Some 10000000000000000"
  by (simp add: ToIntByPrecise_eval)

end
